theory Spec2Isabelle
  imports Main "HOL-Library.AList"
begin

section \<open>Data model\<close>

text \<open>
  A shallow embedding of \<^verbatim>\<open>devpi_server/keyfs.py\<close>: the transactional key/value store
  with a serial-numbered changelog, side files committed by rename, crash recovery by
  replaying the last rename plan, and a notification cursor kept in a file.

  Paths and file contents are strings.  Exceptions are values of \<open>error\<close>; a function
  that mutates the store returns its outcome together with the store as the exception
  (or the return) leaves it.
\<close>

type_synonym path = string
type_synonym bytes = string

datatype error =
    KeyError string
  | TypeError
  | ValueError string
  | ReadOnly
  | AssertionError
  | AttributeError
  | OSError
  | StorageError
  | Deadlock

text \<open>
  Stored values: the shapes a key can declare (scalar, text, bytes, sequence, set,
  mapping).  Python's \<^verbatim>\<open>None\<close> is not a value of any declared type; in the changelog
  it marks a deletion and is modelled by \<open>None :: pyval option\<close>.  Values are immutable
  here, so \<^verbatim>\<open>get_mutable_deepcopy\<close> and \<^verbatim>\<open>ensure_deeply_readonly\<close> are the identity.
\<close>

datatype pyval =
    VInt int
  | VText string
  | VBytes string
  | VList "pyval list"
  | VSet "pyval list"
  | VDict "(pyval \<times> pyval) list"

datatype pytype = TInt | TText | TBytes | TList | TSet | TDict

fun isinstance :: "pyval \<Rightarrow> pytype \<Rightarrow> bool" where
  "isinstance (VInt _) t = (t = TInt)"
| "isinstance (VText _) t = (t = TText)"
| "isinstance (VBytes _) t = (t = TBytes)"
| "isinstance (VList _) t = (t = TList)"
| "isinstance (VSet _) t = (t = TSet)"
| "isinstance (VDict _) t = (t = TDict)"

text \<open>\<^verbatim>\<open>class TypedKey\<close>: equality and hash are over \<open>relpath\<close> alone.\<close>

record typedkey =
  relpath :: string
  ktype :: pytype
  name :: string
  params :: "(string \<times> string) list"

text \<open>
  One changelog entry is \<^verbatim>\<open>(changes, rel_renames)\<close>; \<open>changes\<close> is a dictionary from a relpath
  to \<^verbatim>\<open>(name, back_serial, value)\<close>, kept in insertion order.
\<close>

type_synonym changeset = "(string \<times> (string \<times> int \<times> pyval option)) list"

text \<open>The effects a commit performs, in the order it performs them.\<close>

datatype event =
    Ev_enter int
  | Ev_write_file path bytes
  | Ev_changelog int
  | Ev_rename path path
  | Ev_remove path
  | Ev_cache_commit int
  | Ev_notify int
  | Ev_close

text \<open>
  The store: the \<^verbatim>\<open>KeyFS\<close> object with its storage backend and the files below
  \<open>basedir\<close>.  The storage backend (\<^verbatim>\<open>Storage\<close>, \<^verbatim>\<open>Connection\<close>) is not part of
  \<^verbatim>\<open>keyfs.py\<close>; its fields \<open>next_serial\<close>, \<open>index\<close> and \<open>changelog\<close> follow the storage
  contract of the specification.  The file system holds files only: a path exists iff
  a file is stored under it, and creating a directory never fails.
\<close>

record keyfs =
  basedir :: string
  readonly :: bool
  win32 :: bool
  write_lock :: bool
  next_serial :: int
  index :: "string \<rightharpoonup> (string \<times> int)"
  changelog :: "int \<rightharpoonup> (changeset \<times> string list)"
  files :: "path \<rightharpoonup> bytes"
  trace :: "event list"

type_synonym 'a result = "(error + 'a) \<times> keyfs"

section \<open>Operating system and Python primitives\<close>

definition os_path_exists :: "keyfs \<Rightarrow> path \<Rightarrow> bool" where
  "os_path_exists st p = (files st p \<noteq> None)"

text \<open>\<^verbatim>\<open>os.remove\<close>: raises \<^verbatim>\<open>OSError\<close> when the file is missing.\<close>

definition os_remove :: "path \<Rightarrow> keyfs \<Rightarrow> unit result" where
  "os_remove p st =
     (if os_path_exists st p
      then (Inr (), st\<lparr>files := (files st)(p := None), trace := trace st @ [Ev_remove p]\<rparr>)
      else (Inl OSError, st))"

text \<open>
  \<^verbatim>\<open>os.rename\<close>: raises \<^verbatim>\<open>OSError\<close> when the source is missing and, on Windows, when
  the destination exists; elsewhere it replaces the destination.
\<close>

definition os_rename :: "path \<Rightarrow> path \<Rightarrow> keyfs \<Rightarrow> unit result" where
  "os_rename source dest st =
     (case files st source of
        None \<Rightarrow> (Inl OSError, st)
      | Some content \<Rightarrow>
          if win32 st \<and> os_path_exists st dest then (Inl OSError, st)
          else (Inr (), st\<lparr>files := ((files st)(source := None))(dest \<mapsto> content),
                            trace := trace st @ [Ev_rename source dest]\<rparr>))"

text \<open>\<^verbatim>\<open>get_write_file_ensure_dir(path)\<close> followed by \<^verbatim>\<open>f.write(content)\<close>.\<close>

definition write_file :: "path \<Rightarrow> bytes \<Rightarrow> keyfs \<Rightarrow> keyfs" where
  "write_file p content st =
     st\<lparr>files := (files st)(p \<mapsto> content), trace := trace st @ [Ev_write_file p content]\<rparr>"

text \<open>\<^verbatim>\<open>posixpath.join\<close> of two components.\<close>

definition os_path_join :: "string \<Rightarrow> string \<Rightarrow> string" where
  "os_path_join a b =
     (if b \<noteq> [] \<and> hd b = CHR ''/'' then b
      else if a = [] \<or> last a = CHR ''/'' then a @ b
      else a @ ''/'' @ b)"

definition endswith :: "string \<Rightarrow> string \<Rightarrow> bool" where
  "endswith s suffix = (length suffix \<le> length s \<and> drop (length s - length suffix) s = suffix)"

definition startswith :: "string \<Rightarrow> string \<Rightarrow> bool" where
  "startswith s prefix = (take (length prefix) s = prefix)"

text \<open>The slice \<^verbatim>\<open>s[:-4]\<close>.\<close>

definition strip_tmp :: "string \<Rightarrow> string" where
  "strip_tmp s = take (length s - 4) s"










section \<open>Module functions on files\<close>

text \<open>
  \<^verbatim>\<open>rename(source, dest)\<close>: on \<^verbatim>\<open>OSError\<close> the destination directory is created, on
  Windows an existing destination is removed, and the rename is tried once more.
\<close>

definition rename :: "path \<Rightarrow> path \<Rightarrow> keyfs \<Rightarrow> unit result" where
  "rename source dest st =
     (case os_rename source dest st of
        (Inr u, st') \<Rightarrow> (Inr u, st')
      | (Inl _, st') \<Rightarrow>
          if win32 st' \<and> os_path_exists st' dest
          then (case os_remove dest st' of
                  (Inl e, st'') \<Rightarrow> (Inl e, st'')
                | (Inr _, st'') \<Rightarrow> os_rename source dest st'')
          else os_rename source dest st')"



section \<open>The notification cursor\<close>




section \<open>Storage contract\<close>

text \<open>
  Modelled from the spec: the storage backend (\<^verbatim>\<open>Storage\<close> and \<^verbatim>\<open>Connection\<close>), which
  \<^verbatim>\<open>keyfs.py\<close> calls and does not define.  \<open>db_read_typedkey\<close> returns the row
  \<open>(name, last_serial)\<close> of the primary index or raises \<^verbatim>\<open>KeyError\<close>; \<open>db_write_typedkey\<close>
  stores the row; \<open>write_changelog_entry\<close> stores the entry of a serial; \<open>get_changes\<close>
  returns the \<open>changes\<close> of a serial's entry.
\<close>

definition db_read_typedkey :: "keyfs \<Rightarrow> string \<Rightarrow> error + (string \<times> int)" where
  "db_read_typedkey st rp =
     (case index st rp of None \<Rightarrow> Inl (KeyError rp) | Some row \<Rightarrow> Inr row)"

definition db_write_typedkey :: "string \<Rightarrow> string \<Rightarrow> int \<Rightarrow> keyfs \<Rightarrow> keyfs" where
  "db_write_typedkey rp nm serial st = st\<lparr>index := (index st)(rp \<mapsto> (nm, serial))\<rparr>"

definition write_changelog_entry :: "int \<Rightarrow> changeset \<times> string list \<Rightarrow> keyfs \<Rightarrow> keyfs" where
  "write_changelog_entry serial entry st =
     st\<lparr>changelog := (changelog st)(serial \<mapsto> entry), trace := trace st @ [Ev_changelog serial]\<rparr>"

definition get_changes :: "keyfs \<Rightarrow> int \<Rightarrow> error + changeset" where
  "get_changes st serial =
     (case changelog st serial of None \<Rightarrow> Inl StorageError | Some entry \<Rightarrow> Inr (fst entry))"

text \<open>
  Modelled from the spec: \<^verbatim>\<open>Connection.dirty_files\<close>, the staging map of a connection
  from a path to its new content, or to \<^verbatim>\<open>None\<close> for a file to delete at commit.
\<close>

record connection =
  dirty_files :: "(path \<times> bytes option) list"

definition get_connection :: connection where
  "get_connection = \<lparr>dirty_files = []\<rparr>"

definition get_next_serial :: "keyfs \<Rightarrow> int" where
  "get_next_serial st = next_serial st"

definition get_current_serial :: "keyfs \<Rightarrow> int" where
  "get_current_serial st = next_serial st - 1"

section \<open>Commit and recovery of side files\<close>

text \<open>
  \<^verbatim>\<open>make_rel_renames(basedir, pending_renames)\<close>: the rename plan relative to
  \<open>basedir\<close>; a name ending in \<^verbatim>\<open>-tmp\<close> is to be renamed to the name without the suffix,
  any other name is to be removed.
\<close>

fun make_rel_renames :: "string \<Rightarrow> (path option \<times> path) list \<Rightarrow> error + string list" where
  "make_rel_renames bd [] = Inr []"
| "make_rel_renames bd ((Some source, dest) # rest) =
     (if source = dest @ ''-tmp''
      then (case make_rel_renames bd rest of
              Inl e \<Rightarrow> Inl e
            | Inr rel \<Rightarrow> Inr (drop (length bd + 1) source # rel))
      else Inl AssertionError)"
| "make_rel_renames bd ((None, dest) # rest) =
     (if startswith dest bd
      then (case make_rel_renames bd rest of
              Inl e \<Rightarrow> Inl e
            | Inr rel \<Rightarrow> Inr (drop (length bd + 1) dest # rel))
      else Inl AssertionError)"

text \<open>
  \<^verbatim>\<open>commit_renames(basedir, pending_renames)\<close> returns \<^verbatim>\<open>(files_commit, files_del)\<close>;
  a failing \<^verbatim>\<open>os.remove\<close> is ignored.
\<close>

fun commit_renames :: "string \<Rightarrow> string list \<Rightarrow> keyfs \<Rightarrow> (string list \<times> string list) result" where
  "commit_renames bd [] st = (Inr ([], []), st)"
| "commit_renames bd (rp # rest) st =
     (let p = os_path_join bd rp in
      if endswith rp ''-tmp''
      then (case rename p (strip_tmp p) st of
              (Inl e, st') \<Rightarrow> (Inl e, st')
            | (Inr _, st') \<Rightarrow>
                (case commit_renames bd rest st' of
                   (Inl e, st'') \<Rightarrow> (Inl e, st'')
                 | (Inr (files_commit, files_del), st'') \<Rightarrow>
                     (Inr (strip_tmp rp # files_commit, files_del), st'')))
      else (case commit_renames bd rest (snd (os_remove p st)) of
              (Inl e, st'') \<Rightarrow> (Inl e, st'')
            | (Inr (files_commit, files_del), st'') \<Rightarrow>
                (Inr (files_commit, rp # files_del), st'')))"

text \<open>
  \<^verbatim>\<open>check_pending_renames(basedir, pending_relnames)\<close>, the replay at start-up: a
  staged file that still exists is renamed, otherwise the renamed file is asserted to
  exist; a plain name is removed, a failing removal ignored.
\<close>

fun check_pending_renames :: "string \<Rightarrow> string list \<Rightarrow> keyfs \<Rightarrow> unit result" where
  "check_pending_renames bd [] st = (Inr (), st)"
| "check_pending_renames bd (rp # rest) st =
     (let p = os_path_join bd rp in
      if endswith rp ''-tmp''
      then (if os_path_exists st p
            then (case rename p (strip_tmp p) st of
                    (Inl e, st') \<Rightarrow> (Inl e, st')
                  | (Inr _, st') \<Rightarrow> check_pending_renames bd rest st')
            else if os_path_exists st (strip_tmp p)
            then check_pending_renames bd rest st
            else (Inl AssertionError, st))
      else check_pending_renames bd rest (snd (os_remove p st)))"

section \<open>FSWriter\<close>

record fswriter =
  wconn :: connection
  pending_renames :: "(path option \<times> path) list"
  changes :: changeset

text \<open>\<^verbatim>\<open>KeyFS.write_transaction(conn)\<close>, that is \<^verbatim>\<open>FSWriter(storage, conn)\<close>.\<close>

definition write_transaction :: "connection \<Rightarrow> fswriter" where
  "write_transaction c = \<lparr>wconn = c, pending_renames = [], changes = []\<rparr>"

definition db_get_typedkey_value :: "keyfs \<Rightarrow> typedkey \<Rightarrow> string \<times> int" where
  "db_get_typedkey_value st k =
     (case db_read_typedkey st (relpath k) of Inl _ \<Rightarrow> (name k, - 1) | Inr row \<Rightarrow> row)"

definition db_set_typedkey_value :: "typedkey \<Rightarrow> int \<Rightarrow> keyfs \<Rightarrow> keyfs" where
  "db_set_typedkey_value k serial st = db_write_typedkey (relpath k) (name k) serial st"

text \<open>\<^verbatim>\<open>record_set(typedkey, value)\<close>; the value \<open>None\<close> records a deletion.\<close>

definition record_set :: "typedkey \<Rightarrow> pyval option \<Rightarrow> fswriter \<Rightarrow> keyfs \<Rightarrow> fswriter \<times> keyfs" where
  "record_set k v w st =
     (let back_serial = snd (db_get_typedkey_value st k);
          st' = db_set_typedkey_value k (next_serial st) st
      in (w\<lparr>changes := AList.update (relpath k) (name k, back_serial, v) (changes w)\<rparr>, st'))"

definition record_rename_file :: "path option \<Rightarrow> path \<Rightarrow> fswriter \<Rightarrow> error + fswriter" where
  "record_rename_file source dest w =
     (if dest = [] then Inl AssertionError
      else Inr (w\<lparr>pending_renames := pending_renames w @ [(source, dest)]\<rparr>))"

definition fswriter_enter :: "fswriter \<Rightarrow> keyfs \<Rightarrow> keyfs" where
  "fswriter_enter w st = st\<lparr>trace := trace st @ [Ev_enter (next_serial st)]\<rparr>"

text \<open>
  \<^verbatim>\<open>commit_to_filesystem\<close>: write the changelog entry, perform the renames, increment
  \<open>next_serial\<close>.  (\<^verbatim>\<open>last_commit_timestamp\<close>, a wall-clock time, is left out.)
\<close>

definition commit_to_filesystem ::
  "fswriter \<Rightarrow> keyfs \<Rightarrow> (string list \<times> string list \<times> string list) result" where
  "commit_to_filesystem w st =
     (case make_rel_renames (basedir st) (pending_renames w) of
        Inl e \<Rightarrow> (Inl e, st)
      | Inr rel_renames \<Rightarrow>
          (let st1 = write_changelog_entry (next_serial st) (changes w, rel_renames) st in
           case commit_renames (basedir st1) rel_renames st1 of
             (Inl e, st2) \<Rightarrow> (Inl e, st2)
           | (Inr (files_commit, files_del), st2) \<Rightarrow>
               (Inr (map fst (changes w), files_commit, files_del),
                st2\<lparr>next_serial := next_serial st2 + 1\<rparr>)))"

text \<open>The first loop of \<^verbatim>\<open>__exit__\<close>: every dirty file of the connection is staged.\<close>

fun stage_dirty_files ::
  "(path \<times> bytes option) list \<Rightarrow> fswriter \<Rightarrow> keyfs \<Rightarrow> (error + unit) \<times> fswriter \<times> keyfs" where
  "stage_dirty_files [] w st = (Inr (), w, st)"
| "stage_dirty_files ((p, None) # rest) w st =
     (case record_rename_file None p w of
        Inl e \<Rightarrow> (Inl e, w, st)
      | Inr w' \<Rightarrow> stage_dirty_files rest w' st)"
| "stage_dirty_files ((p, Some content) # rest) w st =
     (let tmppath = p @ ''-tmp''; st' = write_file tmppath content st in
      case record_rename_file (Some tmppath) p w of
        Inl e \<Rightarrow> (Inl e, w, st')
      | Inr w' \<Rightarrow> stage_dirty_files rest w' st')"

text \<open>
  The loop of the error branch of \<^verbatim>\<open>__exit__\<close>: pop the pending renames from the end
  and remove every staged file.  It returns the renames still pending.
\<close>

function rollback_renames ::
  "(path option \<times> path) list \<Rightarrow> keyfs \<Rightarrow> (error + unit) \<times> (path option \<times> path) list \<times> keyfs" where
  "rollback_renames pending st =
     (if pending = [] then (Inr (), [], st)
      else (case fst (last pending) of
              None \<Rightarrow> rollback_renames (butlast pending) st
            | Some source \<Rightarrow>
                (case os_remove source st of
                   (Inl e, st') \<Rightarrow> (Inl e, butlast pending, st')
                 | (Inr _, st') \<Rightarrow> rollback_renames (butlast pending) st')))"
  by pat_completeness auto
termination
  by (relation "measure (\<lambda>(pending, st). length pending)") auto

text \<open>
  \<^verbatim>\<open>__exit__(cls, val, tb)\<close>; \<open>cls\<close> is the exception that left the block, if any.  The
  result is that of \<^verbatim>\<open>__exit__\<close> itself: \<open>Inr ()\<close> when it returns, \<open>Inl e\<close> when it raises.
\<close>

definition fswriter_exit ::
  "error option \<Rightarrow> fswriter \<Rightarrow> keyfs \<Rightarrow> (error + unit) \<times> fswriter \<times> keyfs" where
  "fswriter_exit cls w st =
     (case stage_dirty_files (dirty_files (wconn w)) w st of
        (Inl e, w1, st1) \<Rightarrow> (Inl e, w1, st1)
      | (Inr _, w1, st1) \<Rightarrow>
          (case cls of
             None \<Rightarrow>
               (case commit_to_filesystem w1 st1 of
                  (Inl e, st2) \<Rightarrow> (Inl e, w1, st2)
                | (Inr _, st2) \<Rightarrow>
                    (let commit_serial = next_serial st2 - 1 in
                     (Inr (), w1,
                      st2\<lparr>trace := trace st2 @ [Ev_cache_commit commit_serial, Ev_notify commit_serial]\<rparr>)))
           | Some _ \<Rightarrow>
               (case rollback_renames (pending_renames w1) st1 of
                  (r, pending, st2) \<Rightarrow> (r, w1\<lparr>pending_renames := pending\<rparr>, st2))))"

section \<open>Time travel\<close>

text \<open>
  The loop of \<^verbatim>\<open>KeyFS.get_value_at\<close>.  It follows \<open>back_serial\<close> links for as long as
  the storage hands them out, so the model may not return: the result \<open>None\<close>.
\<close>

partial_function (option) walk_back :: "keyfs \<Rightarrow> string \<Rightarrow> int \<Rightarrow> int \<Rightarrow> (error + pyval) option" where
  "walk_back st rp at last_serial =
     (if last_serial \<ge> 0
      then (case get_changes st last_serial of
              Inl e \<Rightarrow> Some (Inl e)
            | Inr ch \<Rightarrow>
                (case map_of ch rp of
                   None \<Rightarrow> Some (Inl AssertionError)
                 | Some (keyname, back_serial, val) \<Rightarrow>
                     if last_serial > at then walk_back st rp at back_serial
                     else (case val of
                             Some v \<Rightarrow> Some (Inr v)
                           | None \<Rightarrow> Some (Inl (KeyError rp)))))
      else Some (Inl (KeyError rp)))"

definition get_value_at :: "keyfs \<Rightarrow> typedkey \<Rightarrow> int \<Rightarrow> (error + pyval) option" where
  "get_value_at st k at =
     (case db_read_typedkey st (relpath k) of
        Inl e \<Rightarrow> Some (Inl e)
      | Inr (keyname, last_serial) \<Rightarrow> walk_back st (relpath k) at last_serial)"

section \<open>Transactions\<close>

record transaction =
  at_serial :: int
  tx_write :: bool
  cache :: "string \<rightharpoonup> pyval"
  dirty :: "typedkey list"
  conn :: connection
  commit_serial :: "int option"
  closed :: bool

text \<open>
  \<^verbatim>\<open>Transaction.__init__\<close>.  Acquiring the write lock while it is held never returns in
  a single thread; that outcome is the error \<open>Deadlock\<close>.
\<close>

definition transaction_init :: "int option \<Rightarrow> bool \<Rightarrow> keyfs \<Rightarrow> transaction result" where
  "transaction_init at wr st =
     (if wr \<and> at \<noteq> None then (Inl AssertionError, st)
      else if wr \<and> write_lock st then (Inl Deadlock, st)
      else (let st' = (if wr then st\<lparr>write_lock := True\<rparr> else st) in
            (Inr \<lparr>at_serial = (case at of None \<Rightarrow> get_current_serial st' | Some a \<Rightarrow> a),
                  tx_write = wr, cache = Map.empty, dirty = [], conn = get_connection,
                  commit_serial = None, closed = False\<rparr>, st')))"

definition begin_transaction_in_thread :: "bool \<Rightarrow> int option \<Rightarrow> keyfs \<Rightarrow> transaction result" where
  "begin_transaction_in_thread wr at st =
     (if wr \<and> readonly st then (Inl ReadOnly, st) else transaction_init at wr st)"

text \<open>\<^verbatim>\<open>check_unicode_keys(d)\<close>: all its assertions hold.\<close>

fun check_unicode_keys :: "(pyval \<times> pyval) list \<Rightarrow> bool" where
  "check_unicode_keys [] = True"
| "check_unicode_keys ((key, val) # d) =
     ((case key of VBytes _ \<Rightarrow> False | _ \<Rightarrow> True) \<and>
      (case val of VBytes _ \<Rightarrow> False | VDict d' \<Rightarrow> check_unicode_keys d' | _ \<Rightarrow> True) \<and>
      check_unicode_keys d)"

text \<open>\<^verbatim>\<open>self.dirty.add(typedkey)\<close>: a set whose members are equal when their relpaths are.\<close>

definition dirty_add :: "typedkey \<Rightarrow> typedkey list \<Rightarrow> typedkey list" where
  "dirty_add k ks = (if relpath k \<in> set (map relpath ks) then ks else ks @ [k])"

definition transaction_set :: "transaction \<Rightarrow> typedkey \<Rightarrow> pyval \<Rightarrow> error + transaction" where
  "transaction_set tx k val =
     (if \<not> tx_write tx then Inl ReadOnly
      else if ktype k = TDict \<and> (case val of VDict d \<Rightarrow> False | _ \<Rightarrow> True) then Inl AttributeError
      else if ktype k = TDict \<and> (case val of VDict d \<Rightarrow> \<not> check_unicode_keys d | _ \<Rightarrow> False)
      then Inl AssertionError
      else if closed tx then Inl AttributeError
      else Inr (tx\<lparr>cache := (cache tx)(relpath k \<mapsto> val), dirty := dirty_add k (dirty tx)\<rparr>))"

definition transaction_delete :: "transaction \<Rightarrow> typedkey \<Rightarrow> error + transaction" where
  "transaction_delete tx k =
     (if \<not> tx_write tx then Inl ReadOnly
      else if closed tx then Inl AttributeError
      else Inr (tx\<lparr>cache := (cache tx)(relpath k := None), dirty := dirty_add k (dirty tx)\<rparr>))"

definition transaction_exists :: "keyfs \<Rightarrow> transaction \<Rightarrow> typedkey \<Rightarrow> (error + bool) option" where
  "transaction_exists st tx k =
     (if closed tx then Some (Inl AttributeError)
      else if cache tx (relpath k) \<noteq> None then Some (Inr True)
      else if relpath k \<in> set (map relpath (dirty tx)) then Some (Inr False)
      else (case get_value_at st k (at_serial tx) of
              None \<Rightarrow> None
            | Some (Inl (KeyError _)) \<Rightarrow> Some (Inr False)
            | Some (Inl e) \<Rightarrow> Some (Inl e)
            | Some (Inr _) \<Rightarrow> Some (Inr True)))"

text \<open>\<^verbatim>\<open>TypedKey.set\<close>, \<^verbatim>\<open>TypedKey.delete\<close> and \<^verbatim>\<open>TypedKey.exists\<close> on the bound transaction.\<close>

definition typedkey_set :: "typedkey \<Rightarrow> pyval \<Rightarrow> transaction \<Rightarrow> error + transaction" where
  "typedkey_set k val tx =
     (if \<not> isinstance val (ktype k) then Inl TypeError else transaction_set tx k val)"

definition typedkey_delete :: "typedkey \<Rightarrow> transaction \<Rightarrow> error + transaction" where
  "typedkey_delete k tx = transaction_delete tx k"

definition typedkey_exists :: "typedkey \<Rightarrow> keyfs \<Rightarrow> transaction \<Rightarrow> (error + bool) option" where
  "typedkey_exists k st tx = transaction_exists st tx k"

text \<open>\<^verbatim>\<open>Transaction._close\<close>.\<close>

definition transaction_close :: "transaction \<Rightarrow> keyfs \<Rightarrow> (error + int) \<times> transaction \<times> keyfs" where
  "transaction_close tx st =
     (if closed tx then (Inl AttributeError, tx, st)
      else (Inr (at_serial tx),
            tx\<lparr>cache := Map.empty, dirty := [], closed := True\<rparr>,
            st\<lparr>write_lock := (if tx_write tx then False else write_lock st),
               trace := trace st @ [Ev_close]\<rparr>))"

text \<open>The loop of \<^verbatim>\<open>commit\<close> over the dirty keys; a key absent from the cache is deleted.\<close>

fun record_dirty ::
  "typedkey list \<Rightarrow> (string \<rightharpoonup> pyval) \<Rightarrow> fswriter \<Rightarrow> keyfs \<Rightarrow> fswriter \<times> keyfs" where
  "record_dirty [] c w st = (w, st)"
| "record_dirty (k # ks) c w st =
     (case record_set k (c (relpath k)) w st of (w', st') \<Rightarrow> record_dirty ks c w' st')"

text \<open>\<^verbatim>\<open>Transaction.commit\<close>.\<close>

definition transaction_commit :: "transaction \<Rightarrow> keyfs \<Rightarrow> (error + int) \<times> transaction \<times> keyfs" where
  "transaction_commit tx st =
     (if \<not> tx_write tx then transaction_close tx st
      else if closed tx then (Inl AttributeError, tx, st)
      else if dirty tx = [] \<and> dirty_files (conn tx) = [] then transaction_close tx st
      else (let w = write_transaction (conn tx);
                st0 = fswriter_enter w st;
                (w1, st1) = record_dirty (dirty tx) (cache tx) w st0;
                serial = next_serial st1;
                (r, w2, st2) = fswriter_exit None w1 st1;
                (rc, tx', st3) = transaction_close tx st2
            in case r of
                 Inl e \<Rightarrow> (Inl e, tx', st3)
               | Inr _ \<Rightarrow> (Inr serial, tx'\<lparr>commit_serial := Some serial\<rparr>, st3)))"

definition transaction_rollback :: "transaction \<Rightarrow> keyfs \<Rightarrow> (error + int) \<times> transaction \<times> keyfs" where
  "transaction_rollback tx st = transaction_close tx st"

text \<open>
  What a block under \<^verbatim>\<open>with keyfs.transaction(write=True)\<close> does to its transaction:
  it sets and deletes keys, and stages side files on the connection.
\<close>

datatype op = Set typedkey pyval | Delete typedkey | Stage path "bytes option"

fun apply_op :: "op \<Rightarrow> transaction \<Rightarrow> error + transaction" where
  "apply_op (Set k v) tx = typedkey_set k v tx"
| "apply_op (Delete k) tx = typedkey_delete k tx"
| "apply_op (Stage p content) tx =
     Inr (tx\<lparr>conn := (conn tx)\<lparr>dirty_files := AList.update p content (dirty_files (conn tx))\<rparr>\<rparr>)"

fun apply_ops :: "op list \<Rightarrow> transaction \<Rightarrow> error + transaction" where
  "apply_ops [] tx = Inr tx"
| "apply_ops (x # xs) tx =
     (case apply_op x tx of Inl e \<Rightarrow> Inl e | Inr tx' \<Rightarrow> apply_ops xs tx')"

text \<open>
  \<^verbatim>\<open>KeyFS.transaction(write, at_serial)\<close> around a block of operations: commit when the
  block ends, roll back and re-raise when it raises.
\<close>

definition transaction_block :: "bool \<Rightarrow> int option \<Rightarrow> op list \<Rightarrow> keyfs \<Rightarrow> int result" where
  "transaction_block wr at ops st =
     (case begin_transaction_in_thread wr at st of
        (Inl e, st') \<Rightarrow> (Inl e, st')
      | (Inr tx, st') \<Rightarrow>
          (case apply_ops ops tx of
             Inl e \<Rightarrow> (Inl e, snd (snd (transaction_rollback tx st')))
           | Inr tx' \<Rightarrow>
               (case transaction_commit tx' st' of (r, _, st'') \<Rightarrow> (r, st''))))"

text \<open>A history: write transactions run one after the other; it stops at the first error.\<close>

fun run_history :: "op list list \<Rightarrow> keyfs \<Rightarrow> unit result" where
  "run_history [] st = (Inr (), st)"
| "run_history (ops # rest) st =
     (case transaction_block True None ops st of
        (Inl e, st') \<Rightarrow> (Inl e, st')
      | (Inr _, st') \<Rightarrow> run_history rest st')"

section \<open>The engine at start-up\<close>

text \<open>An empty store below \<open>bd\<close>.\<close>

definition empty_keyfs :: "string \<Rightarrow> bool \<Rightarrow> bool \<Rightarrow> keyfs" where
  "empty_keyfs bd ro w32 =
     \<lparr>basedir = bd, readonly = ro, win32 = w32, write_lock = False, next_serial = 0,
      index = Map.empty, changelog = Map.empty, files = Map.empty, trace = []\<rparr>"

text \<open>The crash recovery of \<^verbatim>\<open>KeyFS.__init__\<close>.\<close>

definition crash_recovery :: "keyfs \<Rightarrow> unit result" where
  "crash_recovery st =
     (if next_serial st > 0
      then (case changelog st (get_current_serial st) of
              None \<Rightarrow> (Inl StorageError, st)
            | Some (ch, rel_renames) \<Rightarrow> check_pending_renames (basedir st) rel_renames st)
      else (Inr (), st))"

section \<open>Auxiliary notions for the properties\<close>

text \<open>
  \<open>fs_only st st'\<close>: from \<open>st\<close> to \<open>st'\<close> only the files changed and the trace grew.
  \<open>destructive\<close> effects rename or remove a file.  \<open>staged_renames\<close> is what the first
  loop of \<^verbatim>\<open>__exit__\<close> appends to the pending renames, \<open>staged_sources\<close> the staged
  \<^verbatim>\<open>-tmp\<close> files among pending renames, \<open>staged_writes\<close> the writes of that loop.
\<close>

definition fs_only :: "keyfs \<Rightarrow> keyfs \<Rightarrow> bool" where
  "fs_only st st' =
     (basedir st' = basedir st \<and> readonly st' = readonly st \<and> win32 st' = win32 st \<and>
      write_lock st' = write_lock st \<and> next_serial st' = next_serial st \<and>
      index st' = index st \<and> changelog st' = changelog st \<and>
      (\<exists>t. trace st' = trace st @ t))"

definition destructive :: "event \<Rightarrow> bool" where
  "destructive e = (case e of Ev_rename _ _ \<Rightarrow> True | Ev_remove _ \<Rightarrow> True | _ \<Rightarrow> False)"

definition staged_renames :: "(path \<times> bytes option) list \<Rightarrow> (path option \<times> path) list" where
  "staged_renames df =
     map (\<lambda>(p, c). (case c of None \<Rightarrow> None | Some _ \<Rightarrow> Some (p @ ''-tmp''), p)) df"

definition staged_sources :: "(path option \<times> path) list \<Rightarrow> path list" where
  "staged_sources pending = List.map_filter fst pending"

definition staged_writes :: "(path \<times> bytes option) list \<Rightarrow> event list" where
  "staged_writes df =
     List.map_filter (\<lambda>(p, c). map_option (\<lambda>content. Ev_write_file (p @ ''-tmp'') content) c) df"

definition example_key :: typedkey where
  "example_key = \<lparr>relpath = ''counter'', ktype = TInt, name = ''C'', params = []\<rparr>"

definition example_history :: "op list list" where
  "example_history = [[Set example_key (VInt 1)], [], [Delete example_key]]"

definition example_store :: keyfs where
  "example_store = (empty_keyfs ''/srv'' False False)\<lparr>files := [''/srv/b'' \<mapsto> ''old'']\<rparr>"

definition example_writer :: fswriter where
  "example_writer =
     write_transaction \<lparr>dirty_files = [(''/srv/a'', Some ''DATA''), (''/srv/b'', None)]\<rparr>"

definition example_tx :: transaction where
  "example_tx =
     \<lparr>at_serial = - 1, tx_write = True, cache = Map.empty, dirty = [], conn = get_connection,
      commit_serial = None, closed = False\<rparr>"





section \<open>Properties\<close>


















text \<open>
  C10.  On a read transaction, \<open>TypedKey.set\<close> with a value that is not of the key's
  type raises \<open>TypeError\<close>, not \<open>ReadOnly\<close>: the type is checked first, and \<open>ReadOnly\<close>
  is raised only for a value of the key's type.
\<close>

theorem typedkey_set_type_error_first:
  "(\<not> tx_write tx \<and> \<not> isinstance v (ktype k) \<longrightarrow> typedkey_set k v tx = Inl TypeError) \<and>
   (typedkey_set k v tx = Inl ReadOnly \<longrightarrow> isinstance v (ktype k) \<and> \<not> tx_write tx)"
  by (auto simp: typedkey_set_def transaction_set_def split: if_splits)

theorem typedkey_set_type_error_first_witness:
  "typedkey_set \<lparr>relpath = ''counter'', ktype = TInt, name = ''C'', params = []\<rparr> (VText ''x'')
     \<lparr>at_serial = 0, tx_write = False, cache = Map.empty, dirty = [], conn = get_connection,
      commit_serial = None, closed = False\<rparr> = Inl TypeError"
proof -
  let ?k = "\<lparr>relpath = ''counter'', ktype = TInt, name = ''C'', params = []\<rparr>"
  let ?tx = "\<lparr>at_serial = 0, tx_write = False, cache = Map.empty, dirty = [],
              conn = get_connection, commit_serial = None, closed = False\<rparr>"
  have h: "\<not> tx_write ?tx \<and> \<not> isinstance (VText ''x'') (ktype ?k)" by simp
  from typedkey_set_type_error_first[of ?tx "VText ''x''" ?k]
  have "\<not> tx_write ?tx \<and> \<not> isinstance (VText ''x'') (ktype ?k) \<longrightarrow>
        typedkey_set ?k (VText ''x'') ?tx = Inl TypeError" by (rule conjunct1)
  from this h show ?thesis by (rule mp)
qed

lemma fs_only_refl: "fs_only st st"
  by (simp add: fs_only_def)

lemma fs_only_trans: "fs_only a b \<Longrightarrow> fs_only b c \<Longrightarrow> fs_only a c"
  by (auto simp: fs_only_def)

lemma fs_only_os_remove: "fs_only st (snd (os_remove p st))"
  by (simp add: fs_only_def os_remove_def)

lemma fs_only_os_rename: "fs_only st (snd (os_rename s d st))"
  by (simp add: fs_only_def os_rename_def split: option.splits)

lemma fs_only_write_file: "fs_only st (write_file p c st)"
  by (simp add: fs_only_def write_file_def)

lemma fs_only_rename: "fs_only st (snd (rename s d st))"
proof -
  obtain r1 st1 where 1: "os_rename s d st = (r1, st1)" by (cases "os_rename s d st")
  obtain r2 st2 where 2: "os_remove d st1 = (r2, st2)" by (cases "os_remove d st1")
  obtain r3 st3 where 3: "os_rename s d st2 = (r3, st3)" by (cases "os_rename s d st2")
  obtain r4 st4 where 4: "os_rename s d st1 = (r4, st4)" by (cases "os_rename s d st1")
  have a: "fs_only st st1" using fs_only_os_rename[of st s d] 1 by simp
  have b: "fs_only st1 st2" using fs_only_os_remove[of st1 d] 2 by simp
  have c: "fs_only st2 st3" using fs_only_os_rename[of st2 s d] 3 by simp
  have d: "fs_only st1 st4" using fs_only_os_rename[of st1 s d] 4 by simp
  note t = fs_only_trans
  show ?thesis
    using a t[OF a b] t[OF t[OF a b] c] t[OF a d]
    by (simp add: rename_def 1 2 3 4 split: sum.splits)
qed

lemma fs_only_commit_renames: "fs_only st (snd (commit_renames bd rel st))"
proof (induction rel arbitrary: st)
  case Nil
  show ?case by (simp add: fs_only_refl)
next
  case (Cons rp rest)
  let ?p = "os_path_join bd rp"
  show ?case
  proof (cases "endswith rp ''-tmp''")
    case True
    obtain r1 st1 where 1: "rename ?p (strip_tmp ?p) st = (r1, st1)"
      by (cases "rename ?p (strip_tmp ?p) st")
    have a: "fs_only st st1" using fs_only_rename[of st ?p "strip_tmp ?p"] 1 by simp
    have b: "fs_only st (snd (commit_renames bd rest st1))"
      by (rule fs_only_trans[OF a Cons.IH])
    show ?thesis using True a b
      by (auto simp: 1 Let_def split: sum.splits prod.splits)
  next
    case False
    have a: "fs_only st (snd (os_remove ?p st))" by (rule fs_only_os_remove)
    have b: "fs_only st (snd (commit_renames bd rest (snd (os_remove ?p st))))"
      by (rule fs_only_trans[OF a Cons.IH])
    show ?thesis using False b
      by (auto simp: Let_def split: sum.splits prod.splits)
  qed
qed

lemma fs_only_check_pending_renames: "fs_only st (snd (check_pending_renames bd rel st))"
proof (induction rel arbitrary: st)
  case Nil
  show ?case by (simp add: fs_only_refl)
next
  case (Cons rp rest)
  let ?p = "os_path_join bd rp"
  show ?case
  proof (cases "endswith rp ''-tmp''")
    case True
    obtain r1 st1 where 1: "rename ?p (strip_tmp ?p) st = (r1, st1)"
      by (cases "rename ?p (strip_tmp ?p) st")
    have a: "fs_only st st1" using fs_only_rename[of st ?p "strip_tmp ?p"] 1 by simp
    have b: "fs_only st (snd (check_pending_renames bd rest st1))"
      by (rule fs_only_trans[OF a Cons.IH])
    show ?thesis using True a b Cons.IH[of st]
      by (auto simp: 1 Let_def fs_only_refl split: sum.splits prod.splits)
  next
    case False
    have a: "fs_only st (snd (os_remove ?p st))" by (rule fs_only_os_remove)
    have b: "fs_only st (snd (check_pending_renames bd rest (snd (os_remove ?p st))))"
      by (rule fs_only_trans[OF a Cons.IH])
    show ?thesis using False b
      by (auto simp: Let_def split: sum.splits prod.splits)
  qed
qed

lemma fs_only_stage_dirty_files: "fs_only st (snd (snd (stage_dirty_files df w st)))"
proof (induction df w st rule: stage_dirty_files.induct)
  case (1 w st)
  show ?case by (simp add: fs_only_refl)
next
  case (2 p rest w st)
  then show ?case by (simp add: fs_only_refl split: sum.splits)
next
  case (3 p content rest w st)
  have a: "fs_only st (write_file (p @ ''-tmp'') content st)" by (rule fs_only_write_file)
  show ?case
  proof (cases "record_rename_file (Some (p @ ''-tmp'')) p w")
    case (Inl e)
    then show ?thesis using a by (simp add: Let_def)
  next
    case (Inr w')
    from 3[OF refl refl Inr] a show ?thesis
      by (simp add: Let_def Inr fs_only_trans)
  qed
qed


lemma fs_only_next_serial: "fs_only st st' \<Longrightarrow> next_serial st' = next_serial st"
  by (simp add: fs_only_def)

lemma record_set_frame:
  "next_serial (snd (record_set k v w st)) = next_serial st"
  "changelog (snd (record_set k v w st)) = changelog st"
  "files (snd (record_set k v w st)) = files st"
  "trace (snd (record_set k v w st)) = trace st"
  "basedir (snd (record_set k v w st)) = basedir st"
  "win32 (snd (record_set k v w st)) = win32 st"
  "write_lock (snd (record_set k v w st)) = write_lock st"
  by (simp_all add: record_set_def Let_def db_set_typedkey_value_def db_write_typedkey_def)

lemma record_set_writer:
  "wconn (fst (record_set k v w st)) = wconn w"
  "pending_renames (fst (record_set k v w st)) = pending_renames w"
  by (simp_all add: record_set_def Let_def)

lemma record_dirty_frame:
  "next_serial (snd (record_dirty ks c w st)) = next_serial st \<and>
   changelog (snd (record_dirty ks c w st)) = changelog st \<and>
   files (snd (record_dirty ks c w st)) = files st \<and>
   trace (snd (record_dirty ks c w st)) = trace st \<and>
   basedir (snd (record_dirty ks c w st)) = basedir st \<and>
   win32 (snd (record_dirty ks c w st)) = win32 st \<and>
   write_lock (snd (record_dirty ks c w st)) = write_lock st \<and>
   wconn (fst (record_dirty ks c w st)) = wconn w \<and>
   pending_renames (fst (record_dirty ks c w st)) = pending_renames w"
proof (induction ks arbitrary: w st)
  case Nil
  show ?case by simp
next
  case (Cons k ks)
  obtain w' st' where r: "record_set k (c (relpath k)) w st = (w', st')"
    by (cases "record_set k (c (relpath k)) w st")
  from record_set_frame[of k "c (relpath k)" w st] record_set_writer[of k "c (relpath k)" w st] r
  have "next_serial st' = next_serial st" "changelog st' = changelog st" "files st' = files st"
    "trace st' = trace st" "basedir st' = basedir st" "win32 st' = win32 st"
    "write_lock st' = write_lock st" "wconn w' = wconn w" "pending_renames w' = pending_renames w"
    by simp_all
  with Cons.IH[of w' st'] show ?case by (simp add: r)
qed

lemma commit_to_filesystem_next_serial:
  assumes "commit_to_filesystem w st = (Inr x, st')"
  shows "next_serial st' = next_serial st + 1"
proof -
  from assms obtain rel where rel: "make_rel_renames (basedir st) (pending_renames w) = Inr rel"
    by (auto simp: commit_to_filesystem_def split: sum.splits)
  let ?st1 = "write_changelog_entry (next_serial st) (changes w, rel) st"
  have b: "basedir ?st1 = basedir st" and n: "next_serial ?st1 = next_serial st"
    by (simp_all add: write_changelog_entry_def)
  from fs_only_commit_renames[of ?st1 "basedir st" rel]
  have "next_serial (snd (commit_renames (basedir st) rel ?st1)) = next_serial st"
    using n by (simp add: fs_only_def)
  with assms rel b show ?thesis
    by (auto simp: commit_to_filesystem_def Let_def split: sum.splits prod.splits)
qed

lemma fswriter_exit_next_serial:
  assumes "fswriter_exit None w st = (Inr u, w', st')"
  shows "next_serial st' = next_serial st + 1"
proof -
  obtain r1 w1 st1 where s: "stage_dirty_files (dirty_files (wconn w)) w st = (r1, w1, st1)"
    by (cases "stage_dirty_files (dirty_files (wconn w)) w st")
  from fs_only_stage_dirty_files[of st "dirty_files (wconn w)" w] s
  have n1: "next_serial st1 = next_serial st" by (simp add: fs_only_def)
  from assms s obtain x st2 where c: "commit_to_filesystem w1 st1 = (Inr x, st2)"
    and e: "st' = st2\<lparr>trace := trace st2 @ [Ev_cache_commit (next_serial st2 - 1), Ev_notify (next_serial st2 - 1)]\<rparr>"
    by (auto simp: fswriter_exit_def Let_def split: sum.splits prod.splits)
  from commit_to_filesystem_next_serial[OF c] n1 e show ?thesis by simp
qed

lemma transaction_close_frame:
  "next_serial (snd (snd (transaction_close tx st))) = next_serial st"
  "index (snd (snd (transaction_close tx st))) = index st"
  "changelog (snd (snd (transaction_close tx st))) = changelog st"
  "files (snd (snd (transaction_close tx st))) = files st"
  "basedir (snd (snd (transaction_close tx st))) = basedir st"
  by (simp_all add: transaction_close_def)

lemma transaction_commit_next_serial:
  assumes "transaction_commit tx st = (Inr n, tx', st')" and "tx_write tx"
  shows "next_serial st' =
         next_serial st + (if dirty tx = [] \<and> dirty_files (conn tx) = [] then 0 else 1)"
proof (cases "dirty tx = [] \<and> dirty_files (conn tx) = []")
  case True
  with assms have "transaction_close tx st = (Inr n, tx', st')"
    by (auto simp: transaction_commit_def split: if_splits)
  with transaction_close_frame(1)[of tx st] True show ?thesis by simp
next
  case False
  from assms False have nc: "\<not> closed tx"
    by (auto simp: transaction_commit_def split: if_splits)
  let ?w = "write_transaction (conn tx)"
  let ?st0 = "fswriter_enter ?w st"
  obtain w1 st1 where rd: "record_dirty (dirty tx) (cache tx) ?w ?st0 = (w1, st1)"
    by (cases "record_dirty (dirty tx) (cache tx) ?w ?st0")
  obtain r w2 st2 where ex: "fswriter_exit None w1 st1 = (r, w2, st2)"
    by (cases "fswriter_exit None w1 st1")
  obtain rc tx2 st3 where cl: "transaction_close tx st2 = (rc, tx2, st3)"
    by (cases "transaction_close tx st2")
  from assms False nc rd ex cl have r: "r = Inr ()" and st3: "st' = st3"
    by (auto simp: transaction_commit_def Let_def split: sum.splits)
  have n0: "next_serial ?st0 = next_serial st" by (simp add: fswriter_enter_def)
  from record_dirty_frame[of "dirty tx" "cache tx" ?w ?st0] rd n0
  have n1: "next_serial st1 = next_serial st" by simp
  from fswriter_exit_next_serial[of w1 st1 "()" w2 st2] ex r
  have n2: "next_serial st2 = next_serial st1 + 1" by simp
  from transaction_close_frame(1)[of tx st2] cl have n3: "next_serial st3 = next_serial st2" by simp
  from n1 n2 n3 st3 False show ?thesis by simp
qed

lemma apply_op_frame:
  "apply_op x tx = Inr tx' \<Longrightarrow> tx_write tx' = tx_write tx \<and> closed tx' = closed tx \<and> at_serial tx' = at_serial tx"
  by (cases x) (auto simp: typedkey_set_def transaction_set_def typedkey_delete_def
      transaction_delete_def split: if_splits)

lemma apply_op_nonempty:
  "apply_op x tx = Inr tx' \<Longrightarrow> dirty tx' \<noteq> [] \<or> dirty_files (conn tx') \<noteq> []"
proof (cases x)
  case (Set k v)
  assume "apply_op x tx = Inr tx'"
  with Set have "dirty tx' = dirty_add k (dirty tx)"
    by (auto simp: typedkey_set_def transaction_set_def split: if_splits)
  then show ?thesis by (auto simp: dirty_add_def split: if_splits)
next
  case (Delete k)
  assume "apply_op x tx = Inr tx'"
  with Delete have "dirty tx' = dirty_add k (dirty tx)"
    by (auto simp: typedkey_delete_def transaction_delete_def split: if_splits)
  then show ?thesis by (auto simp: dirty_add_def split: if_splits)
next
  case (Stage p c)
  assume "apply_op x tx = Inr tx'"
  with Stage have "dirty_files (conn tx') = AList.update p c (dirty_files (conn tx))" by auto
  moreover have "AList.update p c (dirty_files (conn tx)) \<noteq> []"
    by (cases "dirty_files (conn tx)") auto
  ultimately show ?thesis by simp
qed

lemma apply_op_keeps_nonempty:
  assumes "apply_op x tx = Inr tx'" and "dirty tx \<noteq> [] \<or> dirty_files (conn tx) \<noteq> []"
  shows "dirty tx' \<noteq> [] \<or> dirty_files (conn tx') \<noteq> []"
  using apply_op_nonempty[OF assms(1)] .

lemma apply_ops_frame:
  "apply_ops ops tx = Inr tx' \<Longrightarrow> tx_write tx' = tx_write tx \<and> closed tx' = closed tx \<and> at_serial tx' = at_serial tx"
proof (induction ops arbitrary: tx)
  case Nil
  then show ?case by simp
next
  case (Cons x xs)
  then obtain tx1 where 1: "apply_op x tx = Inr tx1" and 2: "apply_ops xs tx1 = Inr tx'"
    by (auto split: sum.splits)
  from apply_op_frame[OF 1] Cons.IH[OF 2] show ?case by simp
qed

lemma apply_ops_nonempty:
  "apply_ops ops tx = Inr tx' \<Longrightarrow> ops \<noteq> [] \<or> dirty tx \<noteq> [] \<or> dirty_files (conn tx) \<noteq> [] \<Longrightarrow>
   dirty tx' \<noteq> [] \<or> dirty_files (conn tx') \<noteq> []"
proof (induction ops arbitrary: tx)
  case Nil
  then show ?case by simp
next
  case (Cons x xs)
  from Cons.prems(1) obtain tx1 where 1: "apply_op x tx = Inr tx1" and 2: "apply_ops xs tx1 = Inr tx'"
    by (auto split: sum.splits)
  from apply_op_nonempty[OF 1] have "dirty tx1 \<noteq> [] \<or> dirty_files (conn tx1) \<noteq> []" .
  with Cons.IH[OF 2] show ?case by blast
qed

lemma transaction_block_next_serial:
  assumes "transaction_block True None ops st = (Inr n, st')"
  shows "next_serial st' = next_serial st + (if ops = [] then 0 else 1)"
proof -
  from assms obtain tx st1 where b: "begin_transaction_in_thread True None st = (Inr tx, st1)"
    by (auto simp: transaction_block_def split: prod.splits sum.splits)
  then have tx: "tx_write tx" "dirty tx = []" "dirty_files (conn tx) = []"
    and n1: "next_serial st1 = next_serial st"
    by (auto simp: begin_transaction_in_thread_def transaction_init_def Let_def get_connection_def
        split: if_splits)
  from assms b obtain tx' where a: "apply_ops ops tx = Inr tx'"
    by (auto simp: transaction_block_def split: prod.splits sum.splits)
  with assms b obtain tx2 where c: "transaction_commit tx' st1 = (Inr n, tx2, st')"
    by (auto simp: transaction_block_def split: prod.splits sum.splits)
  from apply_ops_frame[OF a] tx have w: "tx_write tx'" by simp
  have e: "(dirty tx' = [] \<and> dirty_files (conn tx') = []) = (ops = [])"
  proof (cases "ops = []")
    case True
    with a tx show ?thesis by simp
  next
    case False
    with apply_ops_nonempty[OF a] show ?thesis by simp
  qed
  from transaction_commit_next_serial[OF c w] n1 e show ?thesis by simp
qed

lemma run_history_next_serial:
  "run_history h st = (Inr u, st') \<Longrightarrow>
   next_serial st' = next_serial st + int (length (filter (\<lambda>ops. ops \<noteq> []) h))"
proof (induction h arbitrary: st)
  case Nil
  then show ?case by simp
next
  case (Cons ops rest)
  from Cons.prems obtain n st1 where 1: "transaction_block True None ops st = (Inr n, st1)"
    and 2: "run_history rest st1 = (Inr u, st')"
    by (auto split: prod.splits sum.splits)
  from transaction_block_next_serial[OF 1] Cons.IH[OF 2] show ?case by simp
qed

lemma staged_writes_not_destructive: "e \<in> set (staged_writes df) \<Longrightarrow> \<not> destructive e"
  by (auto simp: staged_writes_def map_filter_def destructive_def)

lemma staged_writes_no_changelog: "Ev_changelog n \<notin> set (staged_writes df)"
  by (auto simp: staged_writes_def map_filter_def)

lemma stage_dirty_files_effect:
  "stage_dirty_files df w st = (Inr u, w1, st1) \<Longrightarrow>
   pending_renames w1 = pending_renames w @ staged_renames df \<and>
   trace st1 = trace st @ staged_writes df \<and>
   (\<forall>p. p \<notin> set (staged_sources (staged_renames df)) \<longrightarrow> files st1 p = files st p)"
proof (induction df w st rule: stage_dirty_files.induct)
  case (1 w st)
  then show ?case by (simp add: staged_renames_def staged_writes_def staged_sources_def map_filter_def)
next
  case (2 p rest w st)
  from "2.prems" obtain w' where r: "record_rename_file None p w = Inr w'"
    and s: "stage_dirty_files rest w' st = (Inr u, w1, st1)"
    by (auto split: sum.splits)
  from r have pw: "pending_renames w' = pending_renames w @ [(None, p)]"
    by (auto simp: record_rename_file_def split: if_splits)
  from "2.IH"[OF r s] pw show ?case
    by (simp add: staged_renames_def staged_writes_def staged_sources_def map_filter_def)
next
  case (3 p content rest w st)
  let ?st' = "write_file (p @ ''-tmp'') content st"
  from "3.prems" obtain w' where r: "record_rename_file (Some (p @ ''-tmp'')) p w = Inr w'"
    and s: "stage_dirty_files rest w' ?st' = (Inr u, w1, st1)"
    by (auto simp: Let_def split: sum.splits)
  from r have pw: "pending_renames w' = pending_renames w @ [(Some (p @ ''-tmp''), p)]"
    by (auto simp: record_rename_file_def split: if_splits)
  from "3.IH"[OF refl refl r s] pw show ?case
    by (auto simp: staged_renames_def staged_writes_def staged_sources_def map_filter_def
        write_file_def)
qed


lemma commit_to_filesystem_trace:
  assumes "commit_to_filesystem w st = (Inr x, st')"
  shows "\<exists>post. trace st' = trace st @ Ev_changelog (next_serial st) # post"
    and "changelog st' (next_serial st) \<noteq> None"
proof -
  from assms obtain rel where rel: "make_rel_renames (basedir st) (pending_renames w) = Inr rel"
    by (auto simp: commit_to_filesystem_def split: sum.splits)
  let ?st1 = "write_changelog_entry (next_serial st) (changes w, rel) st"
  have b: "basedir ?st1 = basedir st"
    and t: "trace ?st1 = trace st @ [Ev_changelog (next_serial st)]"
    and c: "changelog ?st1 (next_serial st) \<noteq> None"
    by (simp_all add: write_changelog_entry_def)
  obtain r2 st2 where cr: "commit_renames (basedir st) rel ?st1 = (r2, st2)"
    by (cases "commit_renames (basedir st) rel ?st1")
  from fs_only_commit_renames[of ?st1 "basedir st" rel] cr have f: "fs_only ?st1 st2" by simp
  then obtain post where "trace st2 = trace ?st1 @ post" by (auto simp: fs_only_def)
  with t have t2: "trace st2 = trace st @ Ev_changelog (next_serial st) # post" by simp
  from f c have c2: "changelog st2 (next_serial st) \<noteq> None" by (simp add: fs_only_def)
  from assms rel b cr have "st' = st2\<lparr>next_serial := next_serial st2 + 1\<rparr>"
    by (auto simp: commit_to_filesystem_def Let_def split: sum.splits prod.splits)
  with t2 c2 show "\<exists>post. trace st' = trace st @ Ev_changelog (next_serial st) # post"
    and "changelog st' (next_serial st) \<noteq> None" by simp_all
qed

text \<open>
  C5.  On every successful scoped exit of the writer, the changelog entry of the commit
  serial is written before any rename or removal of a side file: the effects of the exit
  are \<open>pre\<close>, then the changelog write, then \<open>post\<close>, and no effect in \<open>pre\<close> renames
  or removes a file (the effects in \<open>pre\<close> write the staged \<^verbatim>\<open>-tmp\<close> files).
\<close>

theorem changelog_before_renames:
  assumes "fswriter_exit None w st = (Inr (), w', st')"
  shows "\<exists>pre post. trace st' = trace st @ pre @ Ev_changelog (next_serial st) # post \<and>
           (\<forall>e\<in>set pre. \<not> destructive e) \<and> Ev_changelog (next_serial st) \<notin> set pre \<and>
           changelog st' (next_serial st) \<noteq> None"
proof -
  from assms obtain w1 st1 where s: "stage_dirty_files (dirty_files (wconn w)) w st = (Inr (), w1, st1)"
    by (auto simp: fswriter_exit_def split: sum.splits prod.splits)
  from assms s obtain x st2 where c: "commit_to_filesystem w1 st1 = (Inr x, st2)"
    and e: "st' = st2\<lparr>trace := trace st2 @ [Ev_cache_commit (next_serial st2 - 1), Ev_notify (next_serial st2 - 1)]\<rparr>"
    by (auto simp: fswriter_exit_def Let_def split: sum.splits prod.splits)
  let ?pre = "staged_writes (dirty_files (wconn w))"
  from stage_dirty_files_effect[OF s] have t1: "trace st1 = trace st @ ?pre" by simp
  from fs_only_stage_dirty_files[of st "dirty_files (wconn w)" w] s
  have n1: "next_serial st1 = next_serial st" by (simp add: fs_only_def)
  from commit_to_filesystem_trace[OF c] n1 obtain post where
    t2: "trace st2 = trace st1 @ Ev_changelog (next_serial st) # post"
    and c2: "changelog st2 (next_serial st) \<noteq> None" by auto
  let ?post = "post @ [Ev_cache_commit (next_serial st2 - 1), Ev_notify (next_serial st2 - 1)]"
  from e t1 t2 have "trace st' = trace st @ ?pre @ Ev_changelog (next_serial st) # ?post" by simp
  moreover have "\<forall>e\<in>set ?pre. \<not> destructive e" using staged_writes_not_destructive by blast
  moreover have "Ev_changelog (next_serial st) \<notin> set ?pre" by (rule staged_writes_no_changelog)
  moreover from e c2 have "changelog st' (next_serial st) \<noteq> None" by simp
  ultimately show ?thesis by blast
qed









text \<open>
  C7.  Committing an open write transaction with an empty dirty set and no dirty files
  only closes it and returns \<open>at_serial\<close>: the store is unchanged but for the released
  write lock and the close of the connection, so \<open>next_serial\<close>, the changelog, the
  primary index and the files are unchanged and no writer is entered.
\<close>

theorem empty_commit_noop:
  assumes "tx_write tx" "\<not> closed tx" "dirty tx = []" "dirty_files (conn tx) = []"
  shows "transaction_commit tx st =
           (Inr (at_serial tx), tx\<lparr>cache := Map.empty, dirty := [], closed := True\<rparr>,
            st\<lparr>write_lock := False, trace := trace st @ [Ev_close]\<rparr>)"
  using assms by (simp add: transaction_commit_def transaction_close_def)

lemmas store_defs =
  transaction_block_def begin_transaction_in_thread_def transaction_init_def
  transaction_commit_def transaction_close_def transaction_rollback_def empty_keyfs_def
  get_current_serial_def get_connection_def typedkey_set_def typedkey_delete_def
  transaction_set_def transaction_delete_def dirty_add_def write_transaction_def
  fswriter_enter_def fswriter_exit_def record_set_def db_get_typedkey_value_def
  db_set_typedkey_value_def db_read_typedkey_def db_write_typedkey_def
  commit_to_filesystem_def write_changelog_entry_def record_rename_file_def
  write_file_def os_remove_def os_rename_def os_path_exists_def rename_def os_path_join_def
  endswith_def startswith_def strip_tmp_def Let_def

text \<open>
  C3 as stated fails: one write transaction with nothing dirty commits successfully and
  \<open>current_serial\<close> has not increased by one.
\<close>

theorem monotonic_serials_counterexample:
  "fst (transaction_block True None [] (empty_keyfs ''/srv'' False False)) = Inr (- 1) \<and>
   get_current_serial (snd (transaction_block True None [] (empty_keyfs ''/srv'' False False))) \<noteq>
   get_current_serial (empty_keyfs ''/srv'' False False) + 1"
  by (simp add: store_defs)

text \<open>
  C3, as amended.  After a run of successful write transactions, \<open>current_serial\<close> has
  increased by the number of those that changed a key or staged a file (a write
  transaction with nothing dirty commits without taking a serial); each successful
  scoped exit of the writer increments \<open>next_serial\<close> by exactly one.
\<close>

theorem serials_count_commits:
  "(run_history h st = (Inr (), st') \<longrightarrow>
      get_current_serial st' =
        get_current_serial st + int (length (filter (\<lambda>ops. ops \<noteq> []) h))) \<and>
   (fswriter_exit None w st = (Inr (), w', st'') \<longrightarrow> next_serial st'' = next_serial st + 1)"
  using run_history_next_serial[of h st "()" st'] fswriter_exit_next_serial[of w st "()" w' st'']
  by (simp add: get_current_serial_def)

lemmas example_defs =
  example_key_def example_history_def example_store_def example_writer_def example_tx_def

theorem serials_count_commits_witness:
  "fst (run_history example_history (empty_keyfs ''/srv'' False False)) = Inr () \<and>
   get_current_serial (snd (run_history example_history (empty_keyfs ''/srv'' False False))) = 1"
proof -
  let ?st = "empty_keyfs ''/srv'' False False"
  let ?r = "run_history example_history ?st"
  have a: "fst ?r = Inr ()" by (simp add: store_defs example_defs)
  then have b: "?r = (Inr (), snd ?r)" by (simp add: prod_eq_iff)
  from serials_count_commits[of example_history ?st "snd ?r"]
  have "?r = (Inr (), snd ?r) \<longrightarrow>
        get_current_serial (snd ?r) =
          get_current_serial ?st + int (length (filter (\<lambda>ops. ops \<noteq> []) example_history))"
    by (rule conjunct1)
  from this b have "get_current_serial (snd ?r) =
          get_current_serial ?st + int (length (filter (\<lambda>ops. ops \<noteq> []) example_history))"
    by (rule mp)
  also have "\<dots> = 1" by (simp add: example_defs empty_keyfs_def get_current_serial_def)
  finally show ?thesis using a by simp
qed

theorem changelog_before_renames_witness:
  "fst (fswriter_exit None example_writer example_store) = Inr () \<and>
   (\<exists>pre post.
      trace (snd (snd (fswriter_exit None example_writer example_store))) =
        trace example_store @ pre @ Ev_changelog (next_serial example_store) # post \<and>
      (\<forall>e\<in>set pre. \<not> destructive e) \<and> Ev_changelog (next_serial example_store) \<notin> set pre \<and>
      changelog (snd (snd (fswriter_exit None example_writer example_store)))
        (next_serial example_store) \<noteq> None)"
proof -
  let ?r = "fswriter_exit None example_writer example_store"
  have a: "fst ?r = Inr ()" by (simp add: store_defs example_defs)
  then have b: "?r = (Inr (), fst (snd ?r), snd (snd ?r))" by (simp add: prod_eq_iff)
  from a changelog_before_renames[OF b] show ?thesis by (rule conjI)
qed


theorem empty_commit_noop_witness:
  "transaction_commit example_tx example_store =
     (Inr (- 1), example_tx\<lparr>cache := Map.empty, dirty := [], closed := True\<rparr>,
      example_store\<lparr>write_lock := False, trace := trace example_store @ [Ev_close]\<rparr>)"
proof -
  have h: "tx_write example_tx" "\<not> closed example_tx" "dirty example_tx = []"
    "dirty_files (conn example_tx) = []"
    by (simp_all add: example_tx_def get_connection_def)
  have "at_serial example_tx = - 1" by (simp add: example_tx_def)
  with empty_commit_noop[OF h, of example_store] show ?thesis by simp
qed











end
